theory Spec2Isabelle
  imports Complex_Main "HOL-Library.Multiset"
begin

section \<open>House duties: the payment service\<close>

text \<open>
  A shallow embedding of \<^verbatim>\<open>src/services/paymentService.ts\<close>: the payment generator,
  the overdue sweep, the monthly summary and the three-month comparison, over an
  explicit model of the two database tables the service reads and writes.
\<close>

subsection \<open>Dates\<close>

text \<open>
  A JavaScript \<^verbatim>\<open>Date\<close> is a count of milliseconds, and the \<^verbatim>\<open>TIMESTAMP(3)\<close> columns keep
  exactly that precision. The service builds its dates with the local-time constructor
  \<^verbatim>\<open>new Date(year, monthIndex, day, hours, minutes, seconds)\<close>; the definitions below are
  the ECMAScript operations behind it (\<^verbatim>\<open>DayFromYear\<close>, \<^verbatim>\<open>MakeDay\<close>, \<^verbatim>\<open>MakeTime\<close>,
  \<^verbatim>\<open>MakeDate\<close>), with their overflow rules: a month index outside 0..11 moves the year,
  and a day outside the month moves into the neighbouring months. Time stamps are
  milliseconds on the local time line; the zone offset is taken as constant (the
  application's locale is es-CO, which has no daylight saving), so it is the same
  on both sides of every comparison. The constructor's range limit of 8.64e15
  milliseconds is outside the model.
\<close>

type_synonym timestamp = int

definition msPerDay :: int where
  "msPerDay = 86400000"

definition DayFromYear :: "int \<Rightarrow> int" where
  "DayFromYear y =
     365 * (y - 1970) + (y - 1969) div 4 - (y - 1901) div 100 + (y - 1601) div 400"

definition InLeapYear :: "int \<Rightarrow> bool" where
  "InLeapYear y = (y mod 4 = 0 \<and> (y mod 100 \<noteq> 0 \<or> y mod 400 = 0))"

text \<open>Days of the year that precede month index \<open>mn\<close> (0 is January).\<close>

definition DaysBeforeMonth :: "bool \<Rightarrow> int \<Rightarrow> int" where
  "DaysBeforeMonth leap mn =
     (let l = (if leap then 1 else 0) in
      if mn = 0 then 0
      else if mn = 1 then 31
      else if mn = 2 then 59 + l
      else if mn = 3 then 90 + l
      else if mn = 4 then 120 + l
      else if mn = 5 then 151 + l
      else if mn = 6 then 181 + l
      else if mn = 7 then 212 + l
      else if mn = 8 then 243 + l
      else if mn = 9 then 273 + l
      else if mn = 10 then 304 + l
      else 334 + l)"

definition MakeDay :: "int \<Rightarrow> int \<Rightarrow> int \<Rightarrow> int" where
  "MakeDay yr mo dt =
     (let ym = yr + mo div 12;
          mn = mo mod 12
      in DayFromYear ym + DaysBeforeMonth (InLeapYear ym) mn + dt - 1)"

definition MakeTime :: "int \<Rightarrow> int \<Rightarrow> int \<Rightarrow> int \<Rightarrow> int" where
  "MakeTime h mi s ms = h * 3600000 + mi * 60000 + s * 1000 + ms"

definition MakeDate :: "int \<Rightarrow> int \<Rightarrow> timestamp" where
  "MakeDate day time = day * msPerDay + time"

text \<open>
  \<^verbatim>\<open>new Date(y, mo, dt, h, mi, s)\<close>. A year from 0 to 99 means 1900 + year. The calls
  with three arguments leave the time of day at zero.
\<close>

definition fullYear :: "int \<Rightarrow> int" where
  "fullYear y = (if 0 \<le> y \<and> y \<le> 99 then 1900 + y else y)"

definition newDate :: "int \<Rightarrow> int \<Rightarrow> int \<Rightarrow> int \<Rightarrow> int \<Rightarrow> int \<Rightarrow> timestamp" where
  "newDate y mo dt h mi s = MakeDate (MakeDay (fullYear y) mo dt) (MakeTime h mi s 0)"

text \<open>
  The length of calendar month \<open>m\<close> (1 is January) of year \<open>y\<close>, read off the
  constructor: the distance in days between the first of the month and the first of
  the next one.
\<close>

definition daysInMonth :: "int \<Rightarrow> int \<Rightarrow> int" where
  "daysInMonth y m = (newDate y m 1 0 0 0 - newDate y (m - 1) 1 0 0 0) div msPerDay"

subsection \<open>The tables\<close>

text \<open>
  The rows of \<^verbatim>\<open>bills\<close> and \<^verbatim>\<open>payments\<close> as the migration declares them. The identifiers
  are UUIDs produced by the database; they are opaque, and the model draws them from
  a counter kept with the tables. The columns \<^verbatim>\<open>createdAt\<close> and \<^verbatim>\<open>updatedAt\<close> are
  maintained by the ORM and read by no service function; they are left out.
  Amounts are JavaScript numbers (\<^verbatim>\<open>DOUBLE PRECISION\<close>), that is IEEE binary64
  values; a row holds the real number its double stands for. The running sums of
  \<^verbatim>\<open>getPaymentsSummary\<close> are rounded after every addition, as \<^verbatim>\<open>+=\<close> on numbers
  does (see \<open>jsAdd\<close> below). The one subtraction and the one division of
  \<^verbatim>\<open>createMetric\<close> are computed exactly.
\<close>

type_synonym uuid = nat

datatype BillType = RENT | ELECTRICITY | WATER | GAS | INTERNET | PHONE | OTHER

datatype PaymentStatus = PENDING | PAID | OVERDUE

record Bill =
  bill_id :: uuid
  bill_name :: string
  bill_type :: BillType
  bill_amount :: real
  dueDay :: int
  description :: "string option"
  active :: bool

record Payment =
  payment_id :: uuid
  billId :: uuid
  amount :: real
  status :: PaymentStatus
  dueDate :: timestamp
  paidDate :: "timestamp option"
  paymentNotes :: "string option"

record store =
  bills :: "Bill list"
  payments :: "Payment list"
  nextId :: uuid

text \<open>What the database client raises: a missing row, a missing referenced bill.\<close>

datatype error = RecordNotFound | ForeignKeyViolation

record CreatePaymentInput =
  in_billId :: uuid
  in_amount :: real
  in_dueDate :: timestamp
  in_notes :: "string option"

text \<open>An absent field of \<^verbatim>\<open>UpdatePaymentInput\<close> leaves the column as it is.\<close>

record UpdatePaymentInput =
  up_amount :: "real option"
  up_status :: "PaymentStatus option"
  up_paidDate :: "timestamp option"
  up_notes :: "string option"

subsection \<open>The database client\<close>

text \<open>
  \<^verbatim>\<open>prisma.payment.create\<close>: the columns not given take their defaults (status
  \<^verbatim>\<open>PENDING\<close>, no paid date); the foreign key on \<^verbatim>\<open>billId\<close> rejects a bill that does
  not exist.
\<close>

definition payment_create :: "CreatePaymentInput \<Rightarrow> store \<Rightarrow> (error + Payment) \<times> store" where
  "payment_create inp s =
     (if \<exists>b \<in> set (bills s). bill_id b = in_billId inp then
        (let p = \<lparr>payment_id = nextId s, billId = in_billId inp, amount = in_amount inp,
                   status = PENDING, dueDate = in_dueDate inp, paidDate = None,
                   paymentNotes = in_notes inp\<rparr>
         in (Inr p, s\<lparr>payments := payments s @ [p], nextId := Suc (nextId s)\<rparr>))
      else (Inl ForeignKeyViolation, s))"

text \<open>\<^verbatim>\<open>prisma.payment.findFirst\<close> with a filter.\<close>

definition payment_findFirst :: "(Payment \<Rightarrow> bool) \<Rightarrow> store \<Rightarrow> Payment option" where
  "payment_findFirst wh s = find wh (payments s)"

text \<open>
  \<^verbatim>\<open>prisma.payment.findMany\<close> with a filter, ordered by ascending due date. The bill
  joined to each row by \<^verbatim>\<open>include\<close> is read by no function below and is not part of
  the result.
\<close>

definition payment_findMany_byDueDate :: "(Payment \<Rightarrow> bool) \<Rightarrow> store \<Rightarrow> Payment list" where
  "payment_findMany_byDueDate wh s = sort_key dueDate (filter wh (payments s))"

definition applyUpdate :: "UpdatePaymentInput \<Rightarrow> Payment \<Rightarrow> Payment" where
  "applyUpdate inp p =
     p\<lparr>amount := (case up_amount inp of None \<Rightarrow> amount p | Some a \<Rightarrow> a),
       status := (case up_status inp of None \<Rightarrow> status p | Some st \<Rightarrow> st),
       paidDate := (case up_paidDate inp of None \<Rightarrow> paidDate p | Some d \<Rightarrow> Some d),
       paymentNotes := (case up_notes inp of None \<Rightarrow> paymentNotes p | Some n \<Rightarrow> Some n)\<rparr>"

text \<open>\<^verbatim>\<open>prisma.payment.update\<close> by primary key; a missing row is an error.\<close>

definition payment_update :: "uuid \<Rightarrow> UpdatePaymentInput \<Rightarrow> store \<Rightarrow> (error + Payment) \<times> store" where
  "payment_update i inp s =
     (case find (\<lambda>p. payment_id p = i) (payments s) of
        None \<Rightarrow> (Inl RecordNotFound, s)
      | Some p \<Rightarrow>
          (Inr (applyUpdate inp p),
           s\<lparr>payments := map (\<lambda>q. if payment_id q = i then applyUpdate inp q else q) (payments s)\<rparr>))"

text \<open>\<^verbatim>\<open>prisma.payment.updateMany\<close>: every row the filter selects is rewritten; the count is returned.\<close>

definition payment_updateMany :: "(Payment \<Rightarrow> bool) \<Rightarrow> (Payment \<Rightarrow> Payment) \<Rightarrow> store \<Rightarrow> nat \<times> store" where
  "payment_updateMany wh f s =
     (length (filter wh (payments s)),
      s\<lparr>payments := map (\<lambda>p. if wh p then f p else p) (payments s)\<rparr>)"

text \<open>\<^verbatim>\<open>prisma.payment.delete\<close> by primary key.\<close>

definition payment_delete :: "uuid \<Rightarrow> store \<Rightarrow> (error + Payment) \<times> store" where
  "payment_delete i s =
     (case find (\<lambda>p. payment_id p = i) (payments s) of
        None \<Rightarrow> (Inl RecordNotFound, s)
      | Some p \<Rightarrow> (Inr p, s\<lparr>payments := filter (\<lambda>q. payment_id q \<noteq> i) (payments s)\<rparr>))"

subsection \<open>The payment service\<close>

definition createPayment :: "CreatePaymentInput \<Rightarrow> store \<Rightarrow> (error + Payment) \<times> store" where
  "createPayment inp s = payment_create inp s"

definition startDate :: "int \<Rightarrow> int \<Rightarrow> timestamp" where
  "startDate y m = newDate y (m - 1) 1 0 0 0"

definition endDate :: "int \<Rightarrow> int \<Rightarrow> timestamp" where
  "endDate y m = newDate y m 0 23 59 59"

definition getPaymentsByMonth :: "int \<Rightarrow> int \<Rightarrow> store \<Rightarrow> Payment list" where
  "getPaymentsByMonth y m s =
     payment_findMany_byDueDate (\<lambda>p. startDate y m \<le> dueDate p \<and> dueDate p \<le> endDate y m) s"

definition updatePayment :: "uuid \<Rightarrow> UpdatePaymentInput \<Rightarrow> store \<Rightarrow> (error + Payment) \<times> store" where
  "updatePayment i inp s = payment_update i inp s"

text \<open>
  \<^verbatim>\<open>markAsPaid(id, paidDate?)\<close>: a \<^verbatim>\<open>Date\<close> object is always truthy, so
  \<^verbatim>\<open>paidDate || new Date()\<close> is the given date when there is one and the current
  time \<open>now\<close> otherwise.
\<close>

definition markAsPaid :: "uuid \<Rightarrow> timestamp option \<Rightarrow> timestamp \<Rightarrow> store \<Rightarrow> (error + Payment) \<times> store" where
  "markAsPaid i pd now s =
     updatePayment i
       \<lparr>up_amount = None, up_status = Some PAID,
        up_paidDate = Some (case pd of Some d \<Rightarrow> d | None \<Rightarrow> now), up_notes = None\<rparr> s"

definition deletePayment :: "uuid \<Rightarrow> store \<Rightarrow> (error + Payment) \<times> store" where
  "deletePayment i s = payment_delete i s"

text \<open>
  The filter of the duplicate check in \<^verbatim>\<open>generateMonthlyPayments\<close>: a payment of the
  bill with a due date from the first of the month up to, and not including, the
  first of the next month.
\<close>

definition existingFilter :: "int \<Rightarrow> int \<Rightarrow> uuid \<Rightarrow> Payment \<Rightarrow> bool" where
  "existingFilter y m bid p =
     (billId p = bid \<and> newDate y (m - 1) 1 0 0 0 \<le> dueDate p \<and> dueDate p < newDate y m 1 0 0 0)"

text \<open>
  The loop over the active bills. A failed insert aborts the loop with the rows
  written so far kept, as an exception thrown out of the \<^verbatim>\<open>for\<close> loop does.
\<close>

fun generateLoop :: "int \<Rightarrow> int \<Rightarrow> Bill list \<Rightarrow> Payment list \<Rightarrow> store \<Rightarrow> (error + Payment list) \<times> store" where
  "generateLoop y m [] created s = (Inr created, s)"
| "generateLoop y m (bill # rest) created s =
     (case payment_findFirst (existingFilter y m (bill_id bill)) s of
        Some existingPayment \<Rightarrow> generateLoop y m rest created s
      | None \<Rightarrow>
          (case createPayment
                  \<lparr>in_billId = bill_id bill, in_amount = bill_amount bill,
                   in_dueDate = newDate y (m - 1) (dueDay bill) 0 0 0, in_notes = None\<rparr> s of
             (Inl e, s') \<Rightarrow> (Inl e, s')
           | (Inr payment, s') \<Rightarrow> generateLoop y m rest (created @ [payment]) s'))"

definition generateMonthlyPayments :: "int \<Rightarrow> int \<Rightarrow> store \<Rightarrow> (error + Payment list) \<times> store" where
  "generateMonthlyPayments y m s = generateLoop y m (filter active (bills s)) [] s"

text \<open>\<^verbatim>\<open>updateOverduePayments\<close>, with the current time as a parameter.\<close>

definition updateOverduePayments :: "timestamp \<Rightarrow> store \<Rightarrow> nat \<times> store" where
  "updateOverduePayments now s =
     payment_updateMany (\<lambda>p. status p = PENDING \<and> dueDate p < now) (\<lambda>p. p\<lparr>status := OVERDUE\<rparr>) s"

text \<open>
  Addition of JavaScript numbers: the exact sum, rounded to the nearest binary64
  value, ties to the even significand. \<open>binaryExponent x\<close> is the exponent \<open>e\<close> with
  \<open>2^e \<le> |x| < 2^(e+1)\<close>, found by halving or doubling, and not below -1022, where
  the subnormal numbers begin; the spacing of the doubles around \<open>x\<close> is
  \<open>2^(e - 52)\<close>, and \<open>x\<close> is rounded to a multiple of it. Sums of 2^1024 and more,
  which JavaScript turns into \<^verbatim>\<open>Infinity\<close>, are outside the model.
\<close>

fun halvings :: "nat \<Rightarrow> real \<Rightarrow> int" where
  "halvings 0 x = 0"
| "halvings (Suc n) x = (if x < 2 then 0 else halvings n (x / 2) + 1)"

fun doublings :: "nat \<Rightarrow> real \<Rightarrow> int" where
  "doublings 0 x = 0"
| "doublings (Suc n) x = (if 1 \<le> x then 0 else doublings n (x * 2) + 1)"

definition binaryExponent :: "real \<Rightarrow> int" where
  "binaryExponent x =
     (if 1 \<le> \<bar>x\<bar> then halvings 1024 \<bar>x\<bar> else - doublings 1022 \<bar>x\<bar>)"

definition pow2 :: "int \<Rightarrow> real" where
  "pow2 e = (if 0 \<le> e then 2 ^ nat e else 1 / 2 ^ nat (- e))"

definition roundHalfEven :: "real \<Rightarrow> int" where
  "roundHalfEven q =
     (let f = \<lfloor>q\<rfloor>; r = q - of_int f
      in if r < 1 / 2 then f
         else if 1 / 2 < r then f + 1
         else if even f then f else f + 1)"

definition roundDouble :: "real \<Rightarrow> real" where
  "roundDouble x =
     (let u = pow2 (binaryExponent x - 52)
      in of_int (roundHalfEven (x / u)) * u)"

definition jsAdd :: "real \<Rightarrow> real \<Rightarrow> real" where
  "jsAdd x y = roundDouble (x + y)"

record Summary =
  total :: real
  paid :: real
  pending :: real
  overdue :: real

text \<open>The body of the \<^verbatim>\<open>forEach\<close> in \<^verbatim>\<open>getPaymentsSummary\<close>.\<close>

definition addPayment :: "Payment \<Rightarrow> Summary \<Rightarrow> Summary" where
  "addPayment payment summary =
     (let s1 = summary\<lparr>total := jsAdd (total summary) (amount payment)\<rparr> in
      if status payment = PAID then s1\<lparr>paid := jsAdd (paid s1) (amount payment)\<rparr>
      else if status payment = PENDING then s1\<lparr>pending := jsAdd (pending s1) (amount payment)\<rparr>
      else if status payment = OVERDUE then s1\<lparr>overdue := jsAdd (overdue s1) (amount payment)\<rparr>
      else s1)"

definition getPaymentsSummary :: "int \<Rightarrow> int \<Rightarrow> store \<Rightarrow> Summary" where
  "getPaymentsSummary y m s =
     fold addPayment (getPaymentsByMonth y m s) \<lparr>total = 0, paid = 0, pending = 0, overdue = 0\<rparr>"

text \<open>The inner \<^verbatim>\<open>while (targetMonth < 1)\<close> of \<^verbatim>\<open>calculatePreviousMonths\<close>.\<close>

function yearBoundary :: "int \<Rightarrow> int \<Rightarrow> int \<times> int" where
  "yearBoundary targetYear targetMonth =
     (if targetMonth < 1 then yearBoundary (targetYear - 1) (targetMonth + 12)
      else (targetYear, targetMonth))"
  by pat_completeness auto
termination
  by (relation "measure (\<lambda>(ty, tm). nat (1 - tm))") auto

declare yearBoundary.simps [simp del]

text \<open>The outer \<^verbatim>\<open>for (let i = count - 1; i >= 0; i--)\<close>; the pairs are (year, month).\<close>

function monthsLoop :: "int \<Rightarrow> int \<Rightarrow> int \<Rightarrow> (int \<times> int) list \<Rightarrow> (int \<times> int) list" where
  "monthsLoop y m i months =
     (if i \<ge> 0 then monthsLoop y m (i - 1) (months @ [yearBoundary y (m - i)])
      else months)"
  by pat_completeness auto
termination
  by (relation "measure (\<lambda>(y, m, i, months). nat (i + 1))") auto

declare monthsLoop.simps [simp del]

definition calculatePreviousMonths :: "int \<Rightarrow> int \<Rightarrow> int \<Rightarrow> (int \<times> int) list" where
  "calculatePreviousMonths y m n = monthsLoop y m (n - 1) []"

record MonthSummary = Summary +
  ms_year :: int
  ms_month :: int
  monthLabel :: string

datatype Trend = Up | Down | Stable

record ComparisonMetric =
  metricName :: string
  metricValues :: "real list"
  change :: real
  percentageChange :: "real option"
  trend :: Trend

text \<open>
  \<^verbatim>\<open>createMetric\<close> reads \<^verbatim>\<open>values[1]\<close> and \<^verbatim>\<open>values[2]\<close>. With fewer than three values
  JavaScript reads \<^verbatim>\<open>undefined\<close> and computes with \<^verbatim>\<open>NaN\<close>; that case is \<open>None\<close> here,
  and \<open>getPaymentComparison\<close> never reaches it.
\<close>

definition createMetric :: "string \<Rightarrow> real list \<Rightarrow> ComparisonMetric option" where
  "createMetric nm vs =
     (case vs of
        v0 # previousValue # currentValue # _ \<Rightarrow>
          (let ch = currentValue - previousValue;
               pc = (if previousValue \<noteq> 0 then Some ((ch / previousValue) * 100) else None);
               tr = (if \<bar>ch\<bar> < 0.01 then Stable else if ch > 0 then Up else Down)
           in Some \<lparr>metricName = nm, metricValues = vs, change = ch,
                     percentageChange = pc, trend = tr\<rparr>)
      | _ \<Rightarrow> None)"

record Metrics =
  m_total :: ComparisonMetric
  m_paid :: ComparisonMetric
  m_pending :: ComparisonMetric
  m_overdue :: ComparisonMetric

definition calculateComparisonMetrics :: "MonthSummary list \<Rightarrow> Metrics option" where
  "calculateComparisonMetrics summaries =
     (case (createMetric ''Total'' (map total summaries),
            createMetric ''Paid'' (map paid summaries),
            createMetric ''Pending'' (map pending summaries),
            createMetric ''Overdue'' (map overdue summaries)) of
        (Some t, Some p, Some pe, Some ov) \<Rightarrow>
          Some \<lparr>m_total = t, m_paid = p, m_pending = pe, m_overdue = ov\<rparr>
      | _ \<Rightarrow> None)"

record PaymentComparison =
  pc_months :: "MonthSummary list"
  pc_metrics :: Metrics

text \<open>
  \<^verbatim>\<open>getPaymentComparison\<close>; \<open>formatMonth\<close> is the locale formatter of
  \<^verbatim>\<open>utils/formatters.ts\<close>, taken as a parameter.
\<close>

definition getPaymentComparison ::
  "(timestamp \<Rightarrow> string) \<Rightarrow> int \<Rightarrow> int \<Rightarrow> store \<Rightarrow> PaymentComparison option" where
  "getPaymentComparison formatMonth y m s =
     (let months = calculatePreviousMonths y m 3;
          summaries = map (\<lambda>(yy, mm).
              Summary.extend (getPaymentsSummary yy mm s)
                (MonthSummary.fields yy mm (formatMonth (newDate yy (mm - 1) 1 0 0 0)))) months
      in case calculateComparisonMetrics summaries of
           None \<Rightarrow> None
         | Some metrics \<Rightarrow> Some \<lparr>pc_months = summaries, pc_metrics = metrics\<rparr>)"

subsection \<open>Notions used by the properties\<close>

text \<open>
  The calendar's month lengths, by month index (0 is January), for comparison with
  what the date constructor computes.
\<close>

definition monthLength :: "bool \<Rightarrow> int \<Rightarrow> int" where
  "monthLength leap mn =
     (if mn = 1 then (if leap then 29 else 28)
      else if mn = 3 \<or> mn = 5 \<or> mn = 8 \<or> mn = 10 then 30
      else 31)"

text \<open>The data-model invariant on a payment row: a paid date is present exactly on a paid row.\<close>

definition paidDateConsistent :: "Payment \<Rightarrow> bool" where
  "paidDateConsistent p = ((paidDate p \<noteq> None) = (status p = PAID))"

text \<open>What the generator writes for bill \<open>b\<close> and the target month: the insert of its loop body.\<close>

definition generated :: "int \<Rightarrow> int \<Rightarrow> Bill \<Rightarrow> Payment \<Rightarrow> bool" where
  "generated y m b q =
     (billId q = bill_id b \<and> amount q = bill_amount b \<and> status q = PENDING
      \<and> dueDate q = newDate y (m - 1) (dueDay b) 0 0 0 \<and> paidDate q = None)"

text \<open>The states the service can reach from a store without payments.\<close>

inductive reachable :: "store \<Rightarrow> bool" where
  reach_init: "payments s = [] \<Longrightarrow> reachable s"
| reach_create: "reachable s \<Longrightarrow> reachable (snd (createPayment inp s))"
| reach_generate: "reachable s \<Longrightarrow> reachable (snd (generateMonthlyPayments y m s))"
| reach_update: "reachable s \<Longrightarrow> reachable (snd (updatePayment i upd s))"
| reach_markAsPaid: "reachable s \<Longrightarrow> reachable (snd (markAsPaid i pd now s))"
| reach_delete: "reachable s \<Longrightarrow> reachable (snd (deletePayment i s))"
| reach_sweep: "reachable s \<Longrightarrow> reachable (snd (updateOverduePayments now s))"

text \<open>
  An update that writes the status and the paid date together: it touches neither,
  or it sets the status to \<open>PAID\<close> and gives a paid date.
\<close>

definition statusWithPaidDate :: "UpdatePaymentInput \<Rightarrow> bool" where
  "statusWithPaidDate upd =
     ((up_status upd = None \<and> up_paidDate upd = None)
      \<or> (up_status upd = Some PAID \<and> up_paidDate upd \<noteq> None))"

inductive reachablePaired :: "store \<Rightarrow> bool" where
  paired_init: "payments s = [] \<Longrightarrow> reachablePaired s"
| paired_create: "reachablePaired s \<Longrightarrow> reachablePaired (snd (createPayment inp s))"
| paired_generate: "reachablePaired s \<Longrightarrow> reachablePaired (snd (generateMonthlyPayments y m s))"
| paired_update:
    "reachablePaired s \<Longrightarrow> statusWithPaidDate upd \<Longrightarrow> reachablePaired (snd (updatePayment i upd s))"
| paired_markAsPaid: "reachablePaired s \<Longrightarrow> reachablePaired (snd (markAsPaid i pd now s))"
| paired_delete: "reachablePaired s \<Longrightarrow> reachablePaired (snd (deletePayment i s))"
| paired_sweep: "reachablePaired s \<Longrightarrow> reachablePaired (snd (updateOverduePayments now s))"

subsection \<open>Example data\<close>

text \<open>The bill of the specification's first scenario: due on the 31st, amount 1500, active.\<close>

definition rentBill :: Bill where
  "rentBill = \<lparr>bill_id = 0, bill_name = ''Rent'', bill_type = RENT, bill_amount = 1500,
                dueDay = 31, description = None, active = True\<rparr>"

definition rentStore :: store where
  "rentStore = \<lparr>bills = [rentBill], payments = [], nextId = 1\<rparr>"

text \<open>A payment of that bill due on 31 January 2024 at 23:59:59.500.\<close>

definition latePayment :: Payment where
  "latePayment = \<lparr>payment_id = 1, billId = 0, amount = 1500, status = PENDING,
                   dueDate = newDate 2024 0 31 23 59 59 + 500, paidDate = None,
                   paymentNotes = None\<rparr>"

definition lateStore :: store where
  "lateStore = \<lparr>bills = [rentBill], payments = [latePayment], nextId = 2\<rparr>"




text \<open>
  The store of the specification's fourth scenario, extended: a pending payment due
  on 1 January 2024, a paid one, an overdue one, and a pending one due on 1 July
  2024. The sweep below runs on 1 June 2024.
\<close>

definition sweepStore :: store where
  "sweepStore =
     \<lparr>bills = [rentBill],
      payments =
        [\<lparr>payment_id = 1, billId = 0, amount = 1500, status = PENDING,
          dueDate = newDate 2024 0 1 0 0 0, paidDate = None, paymentNotes = None\<rparr>,
         \<lparr>payment_id = 2, billId = 0, amount = 1500, status = PAID,
          dueDate = newDate 2024 1 1 0 0 0, paidDate = Some (newDate 2024 1 1 0 0 0),
          paymentNotes = None\<rparr>,
         \<lparr>payment_id = 3, billId = 0, amount = 1500, status = OVERDUE,
          dueDate = newDate 2024 2 1 0 0 0, paidDate = None, paymentNotes = None\<rparr>,
         \<lparr>payment_id = 4, billId = 0, amount = 1500, status = PENDING,
          dueDate = newDate 2024 6 1 0 0 0, paidDate = None, paymentNotes = None\<rparr>],
      nextId = 5\<rparr>"

text \<open>The store after the payments of April 2023 have been generated from \<open>rentStore\<close>.\<close>

definition aprilStore :: store where
  "aprilStore = snd (generateMonthlyPayments 2023 4 rentStore)"

text \<open>
  A store with one pending payment of the rent bill, made by \<open>createPayment\<close>; the
  same store after an \<open>updatePayment\<close> that sets only the status; and after
  \<open>markAsPaid\<close> without a date on 5 February 2024.
\<close>

definition januaryStore :: store where
  "januaryStore = snd (createPayment
      \<lparr>in_billId = 0, in_amount = 1500, in_dueDate = newDate 2024 0 31 0 0 0, in_notes = None\<rparr>
      rentStore)"

definition paidWithoutDateStore :: store where
  "paidWithoutDateStore = snd (updatePayment 1
      \<lparr>up_amount = None, up_status = Some PAID, up_paidDate = None, up_notes = None\<rparr>
      januaryStore)"

definition paidStore :: store where
  "paidStore = snd (markAsPaid 1 None (newDate 2024 1 5 0 0 0) januaryStore)"

text \<open>
  Three payments due in January 2024 with amounts 2^53, 1 and 1, the first paid and
  the other two pending; three with whole amounts 1500, 800 and 200, one of each
  status; and three with amounts 0.1, 0.1 and 1.1 as doubles, that is
  3602879701896397 / 2^55 and 2476979795053773 / 2^51, paid, overdue and pending.
\<close>

definition januaryPayment :: "uuid \<Rightarrow> int \<Rightarrow> real \<Rightarrow> PaymentStatus \<Rightarrow> Payment" where
  "januaryPayment i day a st =
     \<lparr>payment_id = i, billId = 0, amount = a, status = st,
      dueDate = newDate 2024 0 day 0 0 0, paidDate = (if st = PAID then Some (newDate 2024 0 day 0 0 0) else None),
      paymentNotes = None\<rparr>"

definition largeStore :: store where
  "largeStore =
     \<lparr>bills = [rentBill],
      payments = [januaryPayment 1 10 9007199254740992 PAID,
                  januaryPayment 2 11 1 PENDING,
                  januaryPayment 3 12 1 PENDING],
      nextId = 4\<rparr>"

definition wholeStore :: store where
  "wholeStore =
     \<lparr>bills = [rentBill],
      payments = [januaryPayment 1 10 1500 PAID,
                  januaryPayment 2 11 800 PENDING,
                  januaryPayment 3 12 200 OVERDUE],
      nextId = 4\<rparr>"

definition tenthsStore :: store where
  "tenthsStore =
     \<lparr>bills = [rentBill],
      payments = [januaryPayment 1 10 (3602879701896397 / 36028797018963968) PAID,
                  januaryPayment 2 11 (3602879701896397 / 36028797018963968) OVERDUE,
                  januaryPayment 3 12 (2476979795053773 / 2251799813685248) PENDING],
      nextId = 4\<rparr>"

section \<open>Properties\<close>

subsection \<open>Calendar facts\<close>

lemmas date_defs = newDate_def fullYear_def MakeDate_def MakeDay_def MakeTime_def
  DayFromYear_def InLeapYear_def DaysBeforeMonth_def msPerDay_def

lemma succ_div_mod_wrap:
  fixes a k :: int
  assumes "0 < k" "a mod k + 1 = k"
  shows "(a + 1) div k = a div k + 1" "(a + 1) mod k = 0"
proof -
  have "a + 1 = k * (a div k) + (a mod k + 1)" by simp
  also have "\<dots> = k * (a div k) + k" by (simp only: assms(2))
  finally have eq: "a + 1 = k * (a div k + 1) + 0" by (simp add: algebra_simps)
  show "(a + 1) div k = a div k + 1"
    by (rule int_div_pos_eq [OF eq]) (use assms in simp_all)
  show "(a + 1) mod k = 0"
    by (rule int_mod_pos_eq [OF eq]) (use assms in simp_all)
qed

lemma succ_div_mod_stay:
  fixes a k :: int
  assumes "0 < k" "a mod k + 1 < k"
  shows "(a + 1) div k = a div k" "(a + 1) mod k = a mod k + 1"
proof -
  have eq: "a + 1 = k * (a div k) + (a mod k + 1)" by simp
  show "(a + 1) div k = a div k"
    by (rule int_div_pos_eq [OF eq]) (use assms in simp_all)
  show "(a + 1) mod k = a mod k + 1"
    by (rule int_mod_pos_eq [OF eq]) (use assms in simp_all)
qed

lemma div_step:
  fixes a k :: int
  assumes "0 < k"
  shows "(a + 1) div k - a div k = (if (a + 1) mod k = 0 then 1 else 0)"
proof (cases "a mod k + 1 = k")
  case True
  then show ?thesis by (simp add: succ_div_mod_wrap [OF assms])
next
  case False
  then have lt: "a mod k + 1 < k"
    using pos_mod_bound [OF assms, of a] by linarith
  moreover have "0 \<le> a mod k" using assms by simp
  ultimately show ?thesis by (simp add: succ_div_mod_stay [OF assms lt])
qed

lemma shift_mod:
  fixes y c k :: int
  assumes "c mod k = 0"
  shows "((y - c) mod k = 0) = (y mod k = 0)"
proof -
  have "(y - c) mod k = (y - c mod k) mod k" by (simp only: mod_diff_right_eq)
  then show ?thesis by (simp add: assms)
qed

lemma mod_400_100: "y mod 400 = 0 \<Longrightarrow> y mod 100 = 0" for y :: int
proof -
  assume "y mod 400 = 0"
  then have "400 dvd y" by (simp add: dvd_eq_mod_eq_0)
  moreover have "(100::int) dvd 400" by simp
  ultimately have "100 dvd y" by (rule dvd_trans [rotated])
  then show ?thesis by (simp add: dvd_eq_mod_eq_0)
qed

lemma mod_100_4: "y mod 100 = 0 \<Longrightarrow> y mod 4 = 0" for y :: int
proof -
  assume "y mod 100 = 0"
  then have "100 dvd y" by (simp add: dvd_eq_mod_eq_0)
  moreover have "(4::int) dvd 100" by simp
  ultimately have "4 dvd y" by (rule dvd_trans [rotated])
  then show ?thesis by (simp add: dvd_eq_mod_eq_0)
qed

lemma leap_count:
  fixes p4 p100 p400 :: bool
  assumes "p400 \<longrightarrow> p100" "p100 \<longrightarrow> p4"
  shows "365 + (if p4 then 1 else 0) - (if p100 then 1 else 0) + (if p400 then 1 else 0)
       = (365::int) + (if p4 \<and> (\<not> p100 \<or> p400) then 1 else 0)"
  using assms by (cases p4; cases p100; cases p400) simp_all

lemma DayFromYear_Suc:
  "DayFromYear (y + 1) - DayFromYear y = 365 + (if InLeapYear y then 1 else 0)"
proof -
  have s4: "(y - 1968) div 4 - (y - 1969) div 4 = (if y mod 4 = 0 then 1 else 0)"
    using div_step [where k = 4 and a = "y - 1969"] shift_mod [where c = 1968 and k = 4 and y = y]
    by simp
  have s100: "(y - 1900) div 100 - (y - 1901) div 100 = (if y mod 100 = 0 then 1 else 0)"
    using div_step [where k = 100 and a = "y - 1901"] shift_mod [where c = 1900 and k = 100 and y = y]
    by simp
  have s400: "(y - 1600) div 400 - (y - 1601) div 400 = (if y mod 400 = 0 then 1 else 0)"
    using div_step [where k = 400 and a = "y - 1601"] shift_mod [where c = 1600 and k = 400 and y = y]
    by simp
  have shifted: "y + 1 - 1969 = y - 1968" "y + 1 - 1901 = y - 1900" "y + 1 - 1601 = y - 1600"
    by simp_all
  have lin: "(365 * (y + 1 - 1970) + a' - b' + c') - (365 * (y - 1970) + a - b + c)
      = 365 + (a' - a) - (b' - b) + (c' - c)" for a b c a' b' c' :: int
    by simp
  have "DayFromYear (y + 1) - DayFromYear y =
      365 + ((y - 1968) div 4 - (y - 1969) div 4) - ((y - 1900) div 100 - (y - 1901) div 100)
        + ((y - 1600) div 400 - (y - 1601) div 400)"
    unfolding DayFromYear_def shifted by (rule lin)
  also have "\<dots> = 365 + (if InLeapYear y then 1 else 0)"
    unfolding s4 s100 s400 InLeapYear_def
    using mod_400_100 [of y] mod_100_4 [of y] by (intro leap_count) simp_all
  finally show ?thesis .
qed

lemma small_cases:
  fixes r :: int
  assumes "0 \<le> r" "r < 11"
  shows "r = 0 \<or> r = 1 \<or> r = 2 \<or> r = 3 \<or> r = 4 \<or> r = 5 \<or> r = 6 \<or> r = 7
      \<or> r = 8 \<or> r = 9 \<or> r = 10"
  using assms by arith

lemma DaysBeforeMonth_step:
  assumes "0 \<le> r" "r < 11"
  shows "DaysBeforeMonth leap (r + 1) - DaysBeforeMonth leap r = monthLength leap r"
  using small_cases [OF assms]
  by (elim disjE) (simp_all add: DaysBeforeMonth_def monthLength_def)

lemma MakeDay_first:
  "MakeDay yr mo 1 = DayFromYear (yr + mo div 12) + DaysBeforeMonth (InLeapYear (yr + mo div 12)) (mo mod 12)"
  by (simp add: MakeDay_def Let_def)

lemma MakeDay_next_month:
  "MakeDay yr (mo + 1) 1 - MakeDay yr mo 1 = monthLength (InLeapYear (yr + mo div 12)) (mo mod 12)"
proof (cases "mo mod 12 + 1 = 12")
  case True
  then have r: "mo mod 12 = 11" by simp
  have wrap: "(mo + 1) div 12 = mo div 12 + 1" "(mo + 1) mod 12 = 0"
    using succ_div_mod_wrap [of 12 mo] True by simp_all
  define q where "q = yr + mo div 12"
  have "MakeDay yr (mo + 1) 1 = DayFromYear (q + 1)"
    unfolding MakeDay_first wrap q_def by (simp add: DaysBeforeMonth_def add.assoc)
  moreover have "MakeDay yr mo 1 = DayFromYear q + (334 + (if InLeapYear q then 1 else 0))"
    unfolding MakeDay_first r q_def by (simp add: DaysBeforeMonth_def)
  moreover have "monthLength (InLeapYear q) 11 = 31"
    by (simp add: monthLength_def)
  ultimately show ?thesis
    using DayFromYear_Suc [of q] unfolding r q_def [symmetric] by simp
next
  case False
  have "mo mod 12 < 12" by simp
  with False have lt: "mo mod 12 + 1 < 12" by linarith
  have r0: "0 \<le> mo mod 12" by simp
  have r11: "mo mod 12 < 11" using lt by linarith
  have stay: "(mo + 1) div 12 = mo div 12" "(mo + 1) mod 12 = mo mod 12 + 1"
    using succ_div_mod_stay [of 12 mo] lt by simp_all
  show ?thesis
    unfolding MakeDay_first stay
    using DaysBeforeMonth_step [OF r0 r11, of "InLeapYear (yr + mo div 12)"] by simp
qed


lemma MakeDay_day: "MakeDay yr mo dt = MakeDay yr mo 1 + dt - 1"
  by (simp add: MakeDay_def Let_def)

lemma newDate_midnight: "newDate y mo dt 0 0 0 = (MakeDay (fullYear y) mo 1 + dt - 1) * msPerDay"
  by (simp add: newDate_def MakeDate_def MakeTime_def MakeDay_day [of _ mo dt])


lemma daysInMonth_MakeDay:
  "daysInMonth y m = MakeDay (fullYear y) m 1 - MakeDay (fullYear y) (m - 1) 1"
proof -
  have "newDate y m 1 0 0 0 - newDate y (m - 1) 1 0 0 0
      = (MakeDay (fullYear y) m 1 - MakeDay (fullYear y) (m - 1) 1) * msPerDay"
    by (simp add: newDate_midnight algebra_simps)
  then show ?thesis by (simp add: daysInMonth_def msPerDay_def)
qed

lemma daysInMonth_calendar:
  "daysInMonth y m = monthLength (InLeapYear (fullYear y + (m - 1) div 12)) ((m - 1) mod 12)"
  using MakeDay_next_month [of "fullYear y" "m - 1"] by (simp add: daysInMonth_MakeDay)

lemma daysInMonth_table:
  assumes "1 \<le> m" "m \<le> 12"
  shows "daysInMonth y m =
     (if m = 2 then (if InLeapYear (fullYear y) then 29 else 28)
      else if m = 4 \<or> m = 6 \<or> m = 9 \<or> m = 11 then 30 else 31)"
proof -
  have "(m - 1) div 12 = 0" "(m - 1) mod 12 = m - 1" using assms by simp_all
  then show ?thesis by (auto simp: daysInMonth_calendar monthLength_def)
qed

lemma next_month_start: "newDate y m 1 0 0 0 = newDate y (m - 1) 1 0 0 0 + daysInMonth y m * msPerDay"
  by (simp add: newDate_midnight daysInMonth_MakeDay algebra_simps)




lemma dueDay_in_month:
  assumes "1 \<le> d" "d \<le> daysInMonth y m"
  shows "newDate y (m - 1) 1 0 0 0 \<le> newDate y (m - 1) d 0 0 0"
    and "newDate y (m - 1) d 0 0 0 < newDate y m 1 0 0 0"
proof -
  have eq: "newDate y (m - 1) d 0 0 0 = newDate y (m - 1) 1 0 0 0 + (d - 1) * msPerDay"
    by (simp add: newDate_midnight algebra_simps)
  show "newDate y (m - 1) 1 0 0 0 \<le> newDate y (m - 1) d 0 0 0"
    using assms(1) by (simp add: eq msPerDay_def)
  have "(d - 1) * msPerDay < daysInMonth y m * msPerDay"
    using assms(2) by (simp add: msPerDay_def)
  then show "newDate y (m - 1) d 0 0 0 < newDate y m 1 0 0 0"
    by (simp add: eq next_month_start [of y m])
qed

lemma dueDay_beyond_month:
  assumes "daysInMonth y m < d"
  shows "newDate y m 1 0 0 0 \<le> newDate y (m - 1) d 0 0 0"
proof -
  have eq: "newDate y (m - 1) d 0 0 0 = newDate y (m - 1) 1 0 0 0 + (d - 1) * msPerDay"
    by (simp add: newDate_midnight algebra_simps)
  have "daysInMonth y m * msPerDay \<le> (d - 1) * msPerDay"
    using assms by (simp add: msPerDay_def)
  then show ?thesis by (simp add: eq next_month_start [of y m])
qed

subsection \<open>The generator's loop\<close>

lemma find_append_None: "find P (xs @ ys) = None \<Longrightarrow> find P xs = None"
  by (auto simp: find_None_iff)

lemma createPayment_Inl:
  assumes "createPayment inp s = (Inl e, s')"
  shows "s' = s" "\<not> (\<exists>b \<in> set (bills s). bill_id b = in_billId inp)"
  using assms by (auto simp: createPayment_def payment_create_def Let_def split: if_splits)

lemma createPayment_Inr:
  assumes "createPayment inp s = (Inr p, s')"
  shows "s' = s\<lparr>payments := payments s @ [p], nextId := Suc (nextId s)\<rparr>"
    and "p = \<lparr>payment_id = nextId s, billId = in_billId inp, amount = in_amount inp,
               status = PENDING, dueDate = in_dueDate inp, paidDate = None,
               paymentNotes = in_notes inp\<rparr>"
    and "\<exists>b \<in> set (bills s). bill_id b = in_billId inp"
  using assms by (auto simp: createPayment_def payment_create_def Let_def split: if_splits)

lemma createPayment_succeeds:
  assumes "\<exists>b \<in> set (bills s). bill_id b = in_billId inp"
  shows "\<exists>p s'. createPayment inp s = (Inr p, s')"
  using assms by (simp add: createPayment_def payment_create_def Let_def)

lemma generateLoop_spec:
  assumes "generateLoop y m bs created s = (r, s')"
  shows "\<exists>new. payments s' = payments s @ new \<and> bills s' = bills s
           \<and> (r = Inr (created @ new) \<or> (\<exists>e. r = Inl e))
           \<and> (\<forall>q \<in> set new. \<exists>b \<in> set bs. generated y m b q
                  \<and> find (existingFilter y m (bill_id b)) (payments s) = None)"
  using assms
proof (induction bs arbitrary: created s)
  case Nil
  then show ?case by simp
next
  case (Cons bill rest)
  show ?case
  proof (cases "payment_findFirst (existingFilter y m (bill_id bill)) s")
    case (Some existing)
    with Cons.prems have "generateLoop y m rest created s = (r, s')" by simp
    from Cons.IH [OF this] show ?thesis by auto
  next
    case None
    let ?inp = "\<lparr>in_billId = bill_id bill, in_amount = bill_amount bill,
                   in_dueDate = newDate y (m - 1) (dueDay bill) 0 0 0, in_notes = None\<rparr>"
    obtain r1 s1 where c: "createPayment ?inp s = (r1, s1)" by (cases "createPayment ?inp s")
    show ?thesis
    proof (cases r1)
      case (Inl e)
      with Cons.prems None c have "r = Inl e" "s' = s1" by simp_all
      moreover have "s1 = s" using c Inl createPayment_Inl(1) by blast
      ultimately show ?thesis by simp
    next
      case (Inr p)
      with Cons.prems None c have loop: "generateLoop y m rest (created @ [p]) s1 = (r, s')"
        by simp
      note cp = createPayment_Inr [OF c [unfolded Inr]]
      from Cons.IH [OF loop] obtain new where new:
        "payments s' = payments s1 @ new" "bills s' = bills s1"
        "r = Inr ((created @ [p]) @ new) \<or> (\<exists>e. r = Inl e)"
        "\<forall>q \<in> set new. \<exists>b \<in> set rest. generated y m b q
             \<and> find (existingFilter y m (bill_id b)) (payments s1) = None"
        by blast
      have gen_p: "generated y m bill p"
        by (simp add: cp(2) generated_def)
      have none_p: "find (existingFilter y m (bill_id bill)) (payments s) = None"
        using None by (simp add: payment_findFirst_def)
      have s1p: "payments s1 = payments s @ [p]" "bills s1 = bills s"
        by (simp_all add: cp(1))
      have old: "\<forall>q \<in> set new. \<exists>b \<in> set rest. generated y m b q
             \<and> find (existingFilter y m (bill_id b)) (payments s) = None"
        using new(4) find_append_None [of _ "payments s" "[p]"] unfolding s1p by blast
      have "payments s' = payments s @ (p # new)" using new(1) s1p by simp
      moreover have "bills s' = bills s" using new(2) s1p by simp
      moreover have "r = Inr (created @ (p # new)) \<or> (\<exists>e. r = Inl e)" using new(3) by simp
      moreover have "\<forall>q \<in> set (p # new). \<exists>b \<in> set (bill # rest). generated y m b q
             \<and> find (existingFilter y m (bill_id b)) (payments s) = None"
        using gen_p none_p old by auto
      ultimately show ?thesis by blast
    qed
  qed
qed

lemma generateLoop_succeeds:
  assumes "\<forall>b \<in> set bs. \<exists>b' \<in> set (bills s). bill_id b' = bill_id b"
  shows "\<exists>cr s'. generateLoop y m bs created s = (Inr cr, s')"
  using assms
proof (induction bs arbitrary: created s)
  case Nil
  then show ?case by simp
next
  case (Cons bill rest)
  show ?case
  proof (cases "payment_findFirst (existingFilter y m (bill_id bill)) s")
    case (Some existing)
    then show ?thesis using Cons.IH [of s created] Cons.prems by simp
  next
    case None
    let ?inp = "\<lparr>in_billId = bill_id bill, in_amount = bill_amount bill,
                   in_dueDate = newDate y (m - 1) (dueDay bill) 0 0 0, in_notes = None\<rparr>"
    have "\<exists>b \<in> set (bills s). bill_id b = in_billId ?inp" using Cons.prems by simp
    from createPayment_succeeds [OF this] obtain p s1 where c: "createPayment ?inp s = (Inr p, s1)"
      by blast
    have "bills s1 = bills s" using createPayment_Inr(1) [OF c] by simp
    then have "\<forall>b \<in> set rest. \<exists>b' \<in> set (bills s1). bill_id b' = bill_id b"
      using Cons.prems by simp
    from Cons.IH [OF this, of "created @ [p]"] show ?thesis using None c by simp
  qed
qed

lemma generateLoop_all_existing:
  assumes "\<forall>b \<in> set bs. \<exists>p \<in> set (payments s). existingFilter y m (bill_id b) p"
  shows "generateLoop y m bs created s = (Inr created, s)"
  using assms
proof (induction bs)
  case Nil
  then show ?case by simp
next
  case (Cons bill rest)
  then have "find (existingFilter y m (bill_id bill)) (payments s) \<noteq> None"
    by (auto simp: find_None_iff)
  then obtain e where "payment_findFirst (existingFilter y m (bill_id bill)) s = Some e"
    by (auto simp: payment_findFirst_def)
  then show ?case using Cons by simp
qed

lemma generateLoop_covers:
  assumes "generateLoop y m bs created s = (r, s')" "r = Inr cr"
    and "\<forall>b \<in> set bs. newDate y (m - 1) 1 0 0 0 \<le> newDate y (m - 1) (dueDay b) 0 0 0
             \<and> newDate y (m - 1) (dueDay b) 0 0 0 < newDate y m 1 0 0 0"
  shows "\<forall>b \<in> set bs. \<exists>p \<in> set (payments s'). existingFilter y m (bill_id b) p"
  using assms
proof (induction bs arbitrary: created s)
  case Nil
  then show ?case by simp
next
  case (Cons bill rest)
  from generateLoop_spec [OF Cons.prems(1)] obtain new where
    grow: "payments s' = payments s @ new" by blast
  show ?case
  proof (cases "payment_findFirst (existingFilter y m (bill_id bill)) s")
    case (Some existing)
    then have "existing \<in> set (payments s)" "existingFilter y m (bill_id bill) existing"
      by (auto simp: payment_findFirst_def find_Some_iff)
    then have here: "\<exists>p \<in> set (payments s'). existingFilter y m (bill_id bill) p"
      using grow by auto
    from Some Cons.prems have "generateLoop y m rest created s = (r, s')" by simp
    from Cons.IH [OF this Cons.prems(2)] Cons.prems(3) here show ?thesis by simp
  next
    case None
    let ?inp = "\<lparr>in_billId = bill_id bill, in_amount = bill_amount bill,
                   in_dueDate = newDate y (m - 1) (dueDay bill) 0 0 0, in_notes = None\<rparr>"
    obtain r1 s1 where c: "createPayment ?inp s = (r1, s1)" by (cases "createPayment ?inp s")
    show ?thesis
    proof (cases r1)
      case (Inl e)
      with Cons.prems None c show ?thesis by simp
    next
      case (Inr p)
      with Cons.prems None c have loop: "generateLoop y m rest (created @ [p]) s1 = (r, s')"
        by simp
      note cp = createPayment_Inr [OF c [unfolded Inr]]
      from generateLoop_spec [OF loop] obtain new1 where "payments s' = payments s1 @ new1"
        by blast
      then have "p \<in> set (payments s')" by (simp add: cp(1))
      moreover have "existingFilter y m (bill_id bill) p"
        using Cons.prems(3) by (simp add: cp(2) existingFilter_def)
      ultimately have here: "\<exists>p \<in> set (payments s'). existingFilter y m (bill_id bill) p"
        by blast
      from Cons.IH [OF loop Cons.prems(2)] Cons.prems(3) here show ?thesis by simp
    qed
  qed
qed

subsection \<open>The month list\<close>

lemma yearBoundary_ge: "1 \<le> tm \<Longrightarrow> yearBoundary ty tm = (ty, tm)"
  by (simp add: yearBoundary.simps)

lemma yearBoundary_lt: "tm < 1 \<Longrightarrow> yearBoundary ty tm = yearBoundary (ty - 1) (tm + 12)"
  by (subst yearBoundary.simps) simp

lemma monthsLoop_neg: "i < 0 \<Longrightarrow> monthsLoop y m i months = months"
  by (simp add: monthsLoop.simps)

lemma monthsLoop_step:
  "0 \<le> i \<Longrightarrow> monthsLoop y m i months = monthsLoop y m (i - 1) (months @ [yearBoundary y (m - i)])"
  by (subst monthsLoop.simps) simp

lemma monthsLoop_three:
  "monthsLoop y m 2 [] = [yearBoundary y (m - 2), yearBoundary y (m - 1), yearBoundary y m]"
  by (simp add: monthsLoop_step monthsLoop_neg)

text \<open>
  C7. For a month from 1 to 12, \<open>calculatePreviousMonths year month 3\<close> is the list of
  exactly three (year, month) pairs, oldest first: the two calendar months before the
  target and the target itself. January is preceded by November and December of the
  previous year, February by December of the previous year and January.
\<close>

theorem calculatePreviousMonths_three:
  assumes "1 \<le> m" "m \<le> 12"
  shows "calculatePreviousMonths y m 3 =
     (if m = 1 then [(y - 1, 11), (y - 1, 12), (y, 1)]
      else if m = 2 then [(y - 1, 12), (y, 1), (y, 2)]
      else [(y, m - 2), (y, m - 1), (y, m)])"
  using assms
  by (simp add: calculatePreviousMonths_def monthsLoop_three yearBoundary_ge yearBoundary_lt)

theorem calculatePreviousMonths_three_witness:
  "(1::int) \<le> 1 \<and> (1::int) \<le> 12
   \<and> calculatePreviousMonths 2024 1 3 = [(2023, 11), (2023, 12), (2024, 1)]"
  using calculatePreviousMonths_three [of 1 2024] by simp

subsection \<open>The comparison metrics\<close>

lemma createMetric_three:
  "createMetric nm (v0 # mid # newest # rest) =
     Some \<lparr>metricName = nm, metricValues = v0 # mid # newest # rest, change = newest - mid,
           percentageChange = (if mid \<noteq> 0 then Some (((newest - mid) / mid) * 100) else None),
           trend = (if \<bar>newest - mid\<bar> < 0.01 then Stable else if newest - mid > 0 then Up else Down)\<rparr>"
  by (simp add: createMetric_def Let_def)






text \<open>
  \<open>getPaymentComparison\<close> always builds three summaries, so \<open>createMetric\<close> finds
  the two values it reads and a comparison is returned for every year and month.
\<close>

lemma calculateComparisonMetrics_three:
  "\<exists>ms. calculateComparisonMetrics [a, b, c] = Some ms"
  by (simp add: calculateComparisonMetrics_def createMetric_three)

lemma getPaymentComparison_returns:
  "\<exists>c. getPaymentComparison formatMonth y m s = Some c \<and> length (pc_months c) = 3"
proof -
  obtain a b c where months: "calculatePreviousMonths y m 3 = [a, b, c]"
    by (simp add: calculatePreviousMonths_def monthsLoop_three)
  let ?f = "\<lambda>(yy, mm). Summary.extend (getPaymentsSummary yy mm s)
                (MonthSummary.fields yy mm (formatMonth (newDate yy (mm - 1) 1 0 0 0)))"
  from calculateComparisonMetrics_three [of "?f a" "?f b" "?f c"]
  obtain ms where "calculateComparisonMetrics [?f a, ?f b, ?f c] = Some ms" by blast
  then show ?thesis
    by (simp add: getPaymentComparison_def months)
qed

subsection \<open>Double addition\<close>

lemma halvings_numeral:
  "halvings (numeral k) x = (if x < 2 then 0 else halvings (pred_numeral k) (x / 2) + 1)"
  by (simp add: numeral_eq_Suc)

lemma doublings_numeral:
  "doublings (numeral k) x = (if 1 \<le> x then 0 else doublings (pred_numeral k) (x * 2) + 1)"
  by (simp add: numeral_eq_Suc)

lemmas double_eval = jsAdd_def roundDouble_def binaryExponent_def pow2_def roundHalfEven_def
  Let_def halvings_numeral doublings_numeral

lemma halvings_nonneg: "0 \<le> halvings n x"
  by (induction n arbitrary: x) simp_all

lemma halvings_lower: "1 \<le> x \<Longrightarrow> 2 ^ nat (halvings n x) \<le> x"
proof (induction n arbitrary: x)
  case 0
  then show ?case by simp
next
  case (Suc n)
  show ?case
  proof (cases "x < 2")
    case True
    then show ?thesis using Suc.prems by simp
  next
    case False
    then have "1 \<le> x / 2" by simp
    from Suc.IH [OF this] have "2 * 2 ^ nat (halvings n (x / 2)) \<le> x" by simp
    moreover have "nat (halvings n (x / 2) + 1) = Suc (nat (halvings n (x / 2)))"
      using halvings_nonneg [of n "x / 2"] by simp
    ultimately show ?thesis using False by simp
  qed
qed

lemma halvings_upper: "x < 2 ^ Suc k \<Longrightarrow> halvings n x \<le> int k"
proof (induction n arbitrary: x k)
  case 0
  then show ?case by simp
next
  case (Suc n)
  show ?case
  proof (cases "x < 2")
    case True
    then show ?thesis by simp
  next
    case False
    with Suc.prems obtain k' where k: "k = Suc k'" by (cases k) simp_all
    from Suc.prems have "x / 2 < 2 ^ Suc k'" by (simp add: k)
    from Suc.IH [OF this] show ?thesis using False by (simp add: k)
  qed
qed

lemma pow2_pos: "0 < pow2 e"
  by (simp add: pow2_def)

lemma roundHalfEven_of_int: "roundHalfEven (of_int k) = k"
  by (simp add: roundHalfEven_def)

lemma roundDouble_multiple:
  assumes "x / pow2 (binaryExponent x - 52) = of_int k"
  shows "roundDouble x = x"
proof -
  have "roundDouble x = (x / pow2 (binaryExponent x - 52)) * pow2 (binaryExponent x - 52)"
    unfolding roundDouble_def Let_def assms roundHalfEven_of_int ..
  then show ?thesis using pow2_pos [of "binaryExponent x - 52"] by simp
qed

lemma roundDouble_nat:
  assumes "x \<in> \<nat>" "x \<le> 2 ^ 53"
  shows "roundDouble x = x"
proof (cases "x = 0")
  case True
  have "x / pow2 (binaryExponent x - 52) = of_int 0" by (simp add: True)
  then show ?thesis by (rule roundDouble_multiple)
next
  case False
  from assms(1) obtain n where n: "x = of_nat n" by (auto elim: Nats_cases)
  with False have "1 \<le> n" by (cases n) simp_all
  then have x1: "1 \<le> x" by (simp add: n)
  define e where "e = halvings 1024 x"
  have be: "binaryExponent x = e" using x1 by (simp add: binaryExponent_def e_def)
  have e0: "0 \<le> e" unfolding e_def by (rule halvings_nonneg)
  have "x < 2 ^ Suc 53" using assms(2) by simp
  then have e53: "e \<le> 53" unfolding e_def using halvings_upper [of x 53 1024] by simp
  show ?thesis
  proof (cases "e \<le> 52")
    case True
    then have "pow2 (e - 52) = 1 / 2 ^ nat (52 - e)"
      by (cases "e = 52") (simp_all add: pow2_def)
    then have "x / pow2 (binaryExponent x - 52) = x * 2 ^ nat (52 - e)"
      unfolding be by simp
    also have "\<dots> = of_int (int n * 2 ^ nat (52 - e))"
      by (simp add: n)
    finally show ?thesis by (rule roundDouble_multiple)
  next
    case False
    with e53 have e: "e = 53" by simp
    have "2 ^ nat e \<le> x" unfolding e_def by (rule halvings_lower [OF x1])
    with assms(2) have x: "x = 2 ^ 53" by (simp add: e)
    have "x / pow2 (binaryExponent x - 52) = x / 2"
      unfolding be e by (simp add: pow2_def)
    also have "\<dots> = of_int (2 ^ 52)"
      by (simp add: x)
    finally have "x / pow2 (binaryExponent x - 52) = of_int (2 ^ 52)" .
    then show ?thesis by (rule roundDouble_multiple)
  qed
qed

lemma jsAdd_nat:
  assumes "x \<in> \<nat>" "y \<in> \<nat>" "x + y \<le> 2 ^ 53"
  shows "jsAdd x y = x + y"
  unfolding jsAdd_def using assms by (intro roundDouble_nat Nats_add)

lemma sum_list_Nats: "\<forall>a \<in> set xs. a \<in> \<nat> \<Longrightarrow> sum_list xs \<in> (\<nat> :: real set)"
  by (induction xs) (simp_all add: Nats_add)

lemma Nats_nonneg: "a \<in> \<nat> \<Longrightarrow> 0 \<le> (a :: real)"
  by (auto elim: Nats_cases)

lemma foldl_jsAdd_exact:
  assumes "acc \<in> \<nat>" "\<forall>a \<in> set xs. a \<in> \<nat>" "acc + sum_list xs \<le> 2 ^ 53"
  shows "foldl jsAdd acc xs = acc + sum_list xs"
  using assms
proof (induction xs arbitrary: acc)
  case Nil
  then show ?case by simp
next
  case (Cons a xs)
  have a: "a \<in> \<nat>" and rest: "\<forall>b \<in> set xs. b \<in> \<nat>" using Cons.prems(2) by simp_all
  have "0 \<le> sum_list xs" using sum_list_Nats [OF rest] by (rule Nats_nonneg)
  then have le: "acc + a \<le> 2 ^ 53" using Cons.prems(3) by simp
  have step: "jsAdd acc a = acc + a" by (rule jsAdd_nat [OF Cons.prems(1) a le])
  have "foldl jsAdd (acc + a) xs = acc + a + sum_list xs"
    using Cons.prems(3) by (intro Cons.IH Nats_add Cons.prems(1) a rest) simp
  then show ?case by (simp add: step)
qed

subsection \<open>The summary\<close>

lemma getPaymentsByMonth_mset:
  "mset (getPaymentsByMonth y m s)
     = filter_mset (\<lambda>p. startDate y m \<le> dueDate p \<and> dueDate p \<le> endDate y m) (mset (payments s))"
  by (simp add: getPaymentsByMonth_def payment_findMany_byDueDate_def)


lemma addPayment_fields:
  "total (addPayment p acc) = jsAdd (total acc) (amount p)"
  "paid (addPayment p acc) = (if status p = PAID then jsAdd (paid acc) (amount p) else paid acc)"
  "pending (addPayment p acc)
     = (if status p = PENDING then jsAdd (pending acc) (amount p) else pending acc)"
  "overdue (addPayment p acc)
     = (if status p = OVERDUE then jsAdd (overdue acc) (amount p) else overdue acc)"
  by (cases "status p"; simp add: addPayment_def Let_def)+

lemma fold_addPayment_total:
  "total (fold addPayment ps acc) = foldl jsAdd (total acc) (map amount ps)"
  by (induction ps arbitrary: acc) (simp_all add: addPayment_fields)

lemma fold_addPayment_paid:
  "paid (fold addPayment ps acc)
     = foldl jsAdd (paid acc) (map amount (filter (\<lambda>p. status p = PAID) ps))"
  by (induction ps arbitrary: acc) (simp_all add: addPayment_fields)

lemma fold_addPayment_pending:
  "pending (fold addPayment ps acc)
     = foldl jsAdd (pending acc) (map amount (filter (\<lambda>p. status p = PENDING) ps))"
  by (induction ps arbitrary: acc) (simp_all add: addPayment_fields)

lemma fold_addPayment_overdue:
  "overdue (fold addPayment ps acc)
     = foldl jsAdd (overdue acc) (map amount (filter (\<lambda>p. status p = OVERDUE) ps))"
  by (induction ps arbitrary: acc) (simp_all add: addPayment_fields)

lemma sum_list_by_status:
  "sum_list (map amount ps)
     = sum_list (map amount (filter (\<lambda>p. status p = PAID) ps))
       + sum_list (map amount (filter (\<lambda>p. status p = PENDING) ps))
       + sum_list (map amount (filter (\<lambda>p. status p = OVERDUE) ps))"
proof (induction ps)
  case Nil
  then show ?case by simp
next
  case (Cons p ps)
  then show ?case by (cases "status p") simp_all
qed

lemma sum_list_filter_le:
  assumes "\<forall>p \<in> set ps. 0 \<le> amount p"
  shows "sum_list (map amount (filter P ps)) \<le> sum_list (map amount ps)"
  using assms by (induction ps) (simp_all add: add_mono add_increasing)

lemma bucket_exact:
  assumes nat: "\<forall>p \<in> set ps. amount p \<in> \<nat>" and le: "sum_list (map amount ps) \<le> 2 ^ 53"
  shows "foldl jsAdd 0 (map amount (filter P ps)) = sum_list (map amount (filter P ps))"
proof -
  have "\<forall>p \<in> set ps. 0 \<le> amount p" using nat Nats_nonneg by blast
  from sum_list_filter_le [OF this, of P] le
  have "0 + sum_list (map amount (filter P ps)) \<le> 2 ^ 53" by simp
  moreover have "\<forall>a \<in> set (map amount (filter P ps)). a \<in> \<nat>" using nat by simp
  ultimately show ?thesis
    using foldl_jsAdd_exact [of 0 "map amount (filter P ps)"] by simp
qed

lemma total_exact:
  assumes nat: "\<forall>p \<in> set ps. amount p \<in> \<nat>" and le: "sum_list (map amount ps) \<le> 2 ^ 53"
  shows "foldl jsAdd 0 (map amount ps) = sum_list (map amount ps)"
  using bucket_exact [OF nat le, of "\<lambda>p. True"] by simp

text \<open>
  C3 (as amended). For every year, month and store, the payments
  \<open>getPaymentsSummary\<close> sums are exactly the stored payments the month's filter
  selects, each as often as it is stored. Every selected payment's amount is added
  once to the total and once to the bucket of its status, and to no other: the total
  is the running sum of the selected amounts in listing order, and each bucket is
  the running sum of the selected amounts with that status, every addition rounded
  to a double. When the selected amounts are whole and non-negative and add up to at
  most 2^53, no addition rounds, each sum is the exact sum, and
  total = paid + pending + overdue exactly.
\<close>

theorem getPaymentsSummary_running_sums:
  "mset (getPaymentsByMonth y m s)
       = filter_mset (\<lambda>p. startDate y m \<le> dueDate p \<and> dueDate p \<le> endDate y m)
           (mset (payments s))
   \<and> total (getPaymentsSummary y m s) = foldl jsAdd 0 (map amount (getPaymentsByMonth y m s))
   \<and> paid (getPaymentsSummary y m s)
       = foldl jsAdd 0 (map amount (filter (\<lambda>p. status p = PAID) (getPaymentsByMonth y m s)))
   \<and> pending (getPaymentsSummary y m s)
       = foldl jsAdd 0 (map amount (filter (\<lambda>p. status p = PENDING) (getPaymentsByMonth y m s)))
   \<and> overdue (getPaymentsSummary y m s)
       = foldl jsAdd 0 (map amount (filter (\<lambda>p. status p = OVERDUE) (getPaymentsByMonth y m s)))
   \<and> ((\<forall>p \<in> set (getPaymentsByMonth y m s). amount p \<in> \<nat>)
        \<and> sum_list (map amount (getPaymentsByMonth y m s)) \<le> 2 ^ 53
      \<longrightarrow> total (getPaymentsSummary y m s) = sum_list (map amount (getPaymentsByMonth y m s))
        \<and> total (getPaymentsSummary y m s)
            = paid (getPaymentsSummary y m s) + pending (getPaymentsSummary y m s)
              + overdue (getPaymentsSummary y m s))"
proof -
  let ?ps = "getPaymentsByMonth y m s"
  let ?r = "getPaymentsSummary y m s"
  have t: "total ?r = foldl jsAdd 0 (map amount ?ps)"
    by (simp add: getPaymentsSummary_def fold_addPayment_total)
  have pa: "paid ?r = foldl jsAdd 0 (map amount (filter (\<lambda>p. status p = PAID) ?ps))"
    by (simp add: getPaymentsSummary_def fold_addPayment_paid)
  have pe: "pending ?r = foldl jsAdd 0 (map amount (filter (\<lambda>p. status p = PENDING) ?ps))"
    by (simp add: getPaymentsSummary_def fold_addPayment_pending)
  have ov: "overdue ?r = foldl jsAdd 0 (map amount (filter (\<lambda>p. status p = OVERDUE) ?ps))"
    by (simp add: getPaymentsSummary_def fold_addPayment_overdue)
  have exact: "total ?r = sum_list (map amount ?ps)
      \<and> total ?r = paid ?r + pending ?r + overdue ?r"
    if nat: "\<forall>p \<in> set ?ps. amount p \<in> \<nat>" and le: "sum_list (map amount ?ps) \<le> 2 ^ 53"
  proof -
    have "total ?r = sum_list (map amount ?ps)"
      unfolding t by (rule total_exact [OF nat le])
    moreover have "paid ?r + pending ?r + overdue ?r = sum_list (map amount ?ps)"
      unfolding pa pe ov bucket_exact [OF nat le] by (rule sum_list_by_status [symmetric])
    ultimately show ?thesis by simp
  qed
  show ?thesis
    using t pa pe ov exact getPaymentsByMonth_mset [of y m s] by blast
qed

lemma january_dates:
  "newDate 2024 0 1 0 0 0 = 1704067200000" "newDate 2024 1 0 23 59 59 = 1706745599000"
  "newDate 2024 0 10 0 0 0 = 1704844800000" "newDate 2024 0 11 0 0 0 = 1704931200000"
  "newDate 2024 0 12 0 0 0 = 1705017600000"
  by (simp_all add: date_defs)

lemmas january_eval = getPaymentsByMonth_def payment_findMany_byDueDate_def startDate_def
  endDate_def januaryPayment_def january_dates

lemma wholeStore_listing: "getPaymentsByMonth 2024 1 wholeStore = payments wholeStore"
  by (simp add: wholeStore_def january_eval)

lemma largeStore_listing: "getPaymentsByMonth 2024 1 largeStore = payments largeStore"
  by (simp add: largeStore_def january_eval)

lemma tenthsStore_listing: "getPaymentsByMonth 2024 1 tenthsStore = payments tenthsStore"
  by (simp add: tenthsStore_def january_eval)

theorem getPaymentsSummary_running_sums_witness:
  "list_all (\<lambda>p. amount p \<in> \<nat>) (getPaymentsByMonth 2024 1 wholeStore)
   \<and> sum_list (map amount (getPaymentsByMonth 2024 1 wholeStore)) = 2500
   \<and> total (getPaymentsSummary 2024 1 wholeStore) = 2500
   \<and> total (getPaymentsSummary 2024 1 wholeStore)
       = paid (getPaymentsSummary 2024 1 wholeStore) + pending (getPaymentsSummary 2024 1 wholeStore)
         + overdue (getPaymentsSummary 2024 1 wholeStore)"
proof -
  have nat: "\<forall>p \<in> set (getPaymentsByMonth 2024 1 wholeStore). amount p \<in> \<nat>"
    by (simp add: wholeStore_listing) (simp add: wholeStore_def januaryPayment_def)
  have sum: "sum_list (map amount (getPaymentsByMonth 2024 1 wholeStore)) = 2500"
    by (simp add: wholeStore_listing) (simp add: wholeStore_def januaryPayment_def)
  then have le: "sum_list (map amount (getPaymentsByMonth 2024 1 wholeStore)) \<le> 2 ^ 53"
    by simp
  from getPaymentsSummary_running_sums [of 2024 1 wholeStore] nat le
  have "total (getPaymentsSummary 2024 1 wholeStore)
          = sum_list (map amount (getPaymentsByMonth 2024 1 wholeStore))
      \<and> total (getPaymentsSummary 2024 1 wholeStore)
       = paid (getPaymentsSummary 2024 1 wholeStore) + pending (getPaymentsSummary 2024 1 wholeStore)
         + overdue (getPaymentsSummary 2024 1 wholeStore)"
    by blast
  then show ?thesis using nat sum by (simp add: list_all_iff)
qed

lemma large_additions:
  "jsAdd 0 9007199254740992 = 9007199254740992"
  "jsAdd 9007199254740992 1 = 9007199254740992"
  "jsAdd 0 1 = 1" "jsAdd 1 1 = 2"
  by (simp_all add: double_eval)

theorem getPaymentsSummary_large_counterexample:
  "total (getPaymentsSummary 2024 1 largeStore) = 9007199254740992
   \<and> paid (getPaymentsSummary 2024 1 largeStore) = 9007199254740992
   \<and> pending (getPaymentsSummary 2024 1 largeStore) = 2
   \<and> overdue (getPaymentsSummary 2024 1 largeStore) = 0
   \<and> total (getPaymentsSummary 2024 1 largeStore)
       \<noteq> paid (getPaymentsSummary 2024 1 largeStore) + pending (getPaymentsSummary 2024 1 largeStore)
         + overdue (getPaymentsSummary 2024 1 largeStore)
   \<and> total (getPaymentsSummary 2024 1 largeStore)
       \<noteq> jsAdd (jsAdd (paid (getPaymentsSummary 2024 1 largeStore))
                   (pending (getPaymentsSummary 2024 1 largeStore)))
             (overdue (getPaymentsSummary 2024 1 largeStore))"
proof -
  have r: "getPaymentsSummary 2024 1 largeStore
      = \<lparr>total = 9007199254740992, paid = 9007199254740992, pending = 2, overdue = 0\<rparr>"
    unfolding getPaymentsSummary_def largeStore_listing
    by (simp add: largeStore_def januaryPayment_def addPayment_def large_additions)
  have "jsAdd (jsAdd 9007199254740992 2) 0 = 9007199254740994"
    by (simp add: double_eval)
  then show ?thesis by (simp add: r)
qed

lemma tenths_additions:
  "jsAdd 0 (3602879701896397 / 36028797018963968) = 3602879701896397 / 36028797018963968"
  "jsAdd (3602879701896397 / 36028797018963968) (3602879701896397 / 36028797018963968)
     = 3602879701896397 / 18014398509481984"
  "jsAdd (3602879701896397 / 18014398509481984) (2476979795053773 / 2251799813685248)
     = 5854679515581645 / 4503599627370496"
  "jsAdd 0 (2476979795053773 / 2251799813685248) = 2476979795053773 / 2251799813685248"
  "jsAdd (jsAdd (3602879701896397 / 36028797018963968) (2476979795053773 / 2251799813685248))
       (3602879701896397 / 36028797018963968) = 5854679515581646 / 4503599627370496"
  by (simp_all add: double_eval)

lemma getPaymentsSummary_tenths:
  "getPaymentsSummary 2024 1 tenthsStore
     = \<lparr>total = 5854679515581645 / 4503599627370496,
        paid = 3602879701896397 / 36028797018963968,
        pending = 2476979795053773 / 2251799813685248,
        overdue = 3602879701896397 / 36028797018963968\<rparr>"
  unfolding getPaymentsSummary_def tenthsStore_listing
  by (simp add: tenthsStore_def januaryPayment_def addPayment_def tenths_additions)

text \<open>
  The same at amounts with decimals: 0.1 paid, 0.1 overdue and 1.1 pending give the
  total 1.3, while the three buckets add up to 1.3000000000000003 when added as
  doubles, and to a number that is not a double when added exactly.
\<close>

lemma getPaymentsSummary_tenths_differs:
  "total (getPaymentsSummary 2024 1 tenthsStore)
     \<noteq> jsAdd (jsAdd (paid (getPaymentsSummary 2024 1 tenthsStore))
                 (pending (getPaymentsSummary 2024 1 tenthsStore)))
           (overdue (getPaymentsSummary 2024 1 tenthsStore))"
  "total (getPaymentsSummary 2024 1 tenthsStore)
     \<noteq> paid (getPaymentsSummary 2024 1 tenthsStore) + pending (getPaymentsSummary 2024 1 tenthsStore)
       + overdue (getPaymentsSummary 2024 1 tenthsStore)"
  by (simp_all add: getPaymentsSummary_tenths tenths_additions)

subsection \<open>The overdue sweep\<close>

text \<open>
  C6. For every store and every current time \<open>now\<close>, \<open>updateOverduePayments\<close> keeps
  the rows in place and the bills as they are; a row that is pending with a due date
  strictly before \<open>now\<close> becomes the same row with status overdue, and every other row
  is unchanged; so a paid row stays paid and no row becomes pending. The number
  returned is the number of rows changed.
\<close>

theorem updateOverduePayments_sweep:
  assumes "updateOverduePayments now s = (n, s')"
  shows "length (payments s') = length (payments s) \<and> bills s' = bills s
    \<and> (\<forall>i < length (payments s).
          payments s' ! i =
            (if status (payments s ! i) = PENDING \<and> dueDate (payments s ! i) < now
             then (payments s ! i)\<lparr>status := OVERDUE\<rparr> else payments s ! i))
    \<and> (\<forall>i < length (payments s).
          status (payments s ! i) = PAID \<longrightarrow> status (payments s' ! i) = PAID)
    \<and> (\<forall>i < length (payments s).
          status (payments s' ! i) = PENDING \<longrightarrow> status (payments s ! i) = PENDING)
    \<and> n = card {i. i < length (payments s) \<and> payments s' ! i \<noteq> payments s ! i}"
proof -
  let ?wh = "\<lambda>p. status p = PENDING \<and> dueDate p < now"
  have s': "payments s' = map (\<lambda>p. if ?wh p then p\<lparr>status := OVERDUE\<rparr> else p) (payments s)"
    and b: "bills s' = bills s"
    and n: "n = length (filter ?wh (payments s))"
    using assms by (auto simp: updateOverduePayments_def payment_updateMany_def)
  have changed: "(payments s' ! i \<noteq> payments s ! i) = ?wh (payments s ! i)"
    if "i < length (payments s)" for i
  proof (cases "?wh (payments s ! i)")
    case True
    then have "status (payments s' ! i) = OVERDUE" "status (payments s ! i) = PENDING"
      using that by (simp_all add: s')
    then have "payments s' ! i \<noteq> payments s ! i" by auto
    with True show ?thesis by simp
  next
    case False
    then show ?thesis using that by (simp add: s')
  qed
  have "{i. i < length (payments s) \<and> payments s' ! i \<noteq> payments s ! i}
      = {i. i < length (payments s) \<and> ?wh (payments s ! i)}"
    using changed by auto
  then have "n = card {i. i < length (payments s) \<and> payments s' ! i \<noteq> payments s ! i}"
    by (simp add: n length_filter_conv_card)
  moreover have "length (payments s') = length (payments s)" by (simp add: s')
  moreover have "\<forall>i < length (payments s).
          payments s' ! i =
            (if status (payments s ! i) = PENDING \<and> dueDate (payments s ! i) < now
             then (payments s ! i)\<lparr>status := OVERDUE\<rparr> else payments s ! i)"
    by (simp add: s')
  moreover have "\<forall>i < length (payments s).
          status (payments s ! i) = PAID \<longrightarrow> status (payments s' ! i) = PAID"
    by (simp add: s')
  moreover have "\<forall>i < length (payments s).
          status (payments s' ! i) = PENDING \<longrightarrow> status (payments s ! i) = PENDING"
    by (simp add: s')
  ultimately show ?thesis using b by blast
qed

lemmas sweep_eval = updateOverduePayments_def payment_updateMany_def sweepStore_def date_defs

theorem updateOverduePayments_sweep_witness:
  "fst (updateOverduePayments (newDate 2024 5 1 0 0 0) sweepStore) = 1
   \<and> map status (payments (snd (updateOverduePayments (newDate 2024 5 1 0 0 0) sweepStore)))
       = [OVERDUE, PAID, OVERDUE, PENDING]
   \<and> length (payments (snd (updateOverduePayments (newDate 2024 5 1 0 0 0) sweepStore)))
       = length (payments sweepStore)"
proof -
  have run: "updateOverduePayments (newDate 2024 5 1 0 0 0) sweepStore
      = (fst (updateOverduePayments (newDate 2024 5 1 0 0 0) sweepStore),
         snd (updateOverduePayments (newDate 2024 5 1 0 0 0) sweepStore))"
    by simp
  have len: "length (payments (snd (updateOverduePayments (newDate 2024 5 1 0 0 0) sweepStore)))
       = length (payments sweepStore)"
    using updateOverduePayments_sweep [OF run] by blast
  have "fst (updateOverduePayments (newDate 2024 5 1 0 0 0) sweepStore) = 1"
    by (simp add: sweep_eval)
  moreover have "map status (payments (snd (updateOverduePayments (newDate 2024 5 1 0 0 0) sweepStore)))
       = [OVERDUE, PAID, OVERDUE, PENDING]"
    by (simp add: sweep_eval)
  ultimately show ?thesis using len by blast
qed

subsection \<open>The two month windows\<close>


lemma generateMonthlyPayments_spec:
  assumes "generateMonthlyPayments y m s = (r, s')"
  shows "\<exists>new. payments s' = payments s @ new \<and> bills s' = bills s \<and> r = Inr new
           \<and> (\<forall>q \<in> set new. \<exists>b \<in> set (bills s). active b \<and> generated y m b q
                  \<and> find (existingFilter y m (bill_id b)) (payments s) = None)"
proof -
  have "\<forall>b \<in> set (filter active (bills s)). \<exists>b' \<in> set (bills s). bill_id b' = bill_id b"
    by auto
  from generateLoop_succeeds [OF this, of y m "[]"] assms
  obtain cr where r: "r = Inr cr" by (auto simp: generateMonthlyPayments_def)
  from generateLoop_spec [OF assms [unfolded generateMonthlyPayments_def]]
  obtain new where new: "payments s' = payments s @ new" "bills s' = bills s"
    "r = Inr ([] @ new) \<or> (\<exists>e. r = Inl e)"
    "\<forall>q \<in> set new. \<exists>b \<in> set (filter active (bills s)). generated y m b q
         \<and> find (existingFilter y m (bill_id b)) (payments s) = None"
    by blast
  from new(3) r have "r = Inr new" by auto
  moreover from new(4) have "\<forall>q \<in> set new. \<exists>b \<in> set (bills s). active b \<and> generated y m b q
         \<and> find (existingFilter y m (bill_id b)) (payments s) = None"
    by auto
  ultimately show ?thesis using new(1,2) by blast
qed




lemmas late_eval = lateStore_def latePayment_def rentBill_def date_defs


text \<open>
  C9, at the input where the code departs from it. The payment \<open>latePayment\<close> is due
  on 31 January 2024 at 23:59:59.500, inside January: on or after the first instant
  of the month's last day and before the first instant of February. The listing of
  January 2024 does not select it, and the month's summary is all zero.
\<close>

theorem getPaymentsByMonth_misses_last_second:
  "startDate 2024 1 \<le> dueDate latePayment
   \<and> newDate 2024 0 31 0 0 0 \<le> dueDate latePayment
   \<and> dueDate latePayment < newDate 2024 1 1 0 0 0
   \<and> payments lateStore = [latePayment]
   \<and> getPaymentsByMonth 2024 1 lateStore = []
   \<and> getPaymentsSummary 2024 1 lateStore = \<lparr>total = 0, paid = 0, pending = 0, overdue = 0\<rparr>"
proof -
  have d: "dueDate latePayment = 1706745599500" "startDate 2024 1 = 1704067200000"
    "endDate 2024 1 = 1706745599000" "newDate 2024 0 31 0 0 0 = 1706659200000"
    "newDate 2024 1 1 0 0 0 = 1706745600000"
    by (simp_all add: startDate_def endDate_def late_eval)
  have l: "getPaymentsByMonth 2024 1 lateStore = []"
    by (simp add: getPaymentsByMonth_def payment_findMany_byDueDate_def d lateStore_def)
  show ?thesis
    by (simp add: d l getPaymentsSummary_def) (simp add: lateStore_def)
qed

subsection \<open>The generated due date\<close>

lemma newDate_day_shift:
  "newDate y (m - 1) d 0 0 0 = newDate y m (d - daysInMonth y m) 0 0 0"
  by (simp add: newDate_midnight daysInMonth_MakeDay algebra_simps)

lemma generated_dueDate_in_month:
  assumes "generated y m b q" "1 \<le> dueDay b" "dueDay b \<le> daysInMonth y m"
  shows "newDate y (m - 1) 1 0 0 0 \<le> dueDate q" "dueDate q < newDate y m 1 0 0 0"
  using assms dueDay_in_month [of "dueDay b" y m] by (simp_all add: generated_def)

lemma generated_dueDate_next_month:
  assumes "generated y m b q" "daysInMonth y m < dueDay b"
  shows "newDate y m 1 0 0 0 \<le> dueDate q"
    and "dueDate q = newDate y m (dueDay b - daysInMonth y m) 0 0 0"
proof -
  show "newDate y m 1 0 0 0 \<le> dueDate q"
    using assms dueDay_beyond_month [of y m "dueDay b"] by (simp add: generated_def)
  show "dueDate q = newDate y m (dueDay b - daysInMonth y m) 0 0 0"
    using assms(1) newDate_day_shift [of y m "dueDay b"] by (simp add: generated_def)
qed

lemma generateMonthlyPayments_twice_when_days_fit:
  assumes fit: "\<forall>b \<in> set (bills s). active b \<longrightarrow> 1 \<le> dueDay b \<and> dueDay b \<le> daysInMonth y m"
    and run: "generateMonthlyPayments y m s = (r, s1)"
  shows "generateMonthlyPayments y m s1 = (Inr [], s1)"
proof -
  from generateMonthlyPayments_spec [OF run] obtain new where
    new: "r = Inr new" and b: "bills s1 = bills s"
    by blast
  have win: "\<forall>b \<in> set (filter active (bills s)).
      newDate y (m - 1) 1 0 0 0 \<le> newDate y (m - 1) (dueDay b) 0 0 0
      \<and> newDate y (m - 1) (dueDay b) 0 0 0 < newDate y m 1 0 0 0"
    using fit dueDay_in_month [of _ y m] by simp
  have "\<forall>b \<in> set (filter active (bills s)).
      \<exists>p \<in> set (payments s1). existingFilter y m (bill_id b) p"
    by (rule generateLoop_covers [OF run [unfolded generateMonthlyPayments_def] new win])
  from generateLoop_all_existing [OF this, of "[]"] show ?thesis
    by (simp add: generateMonthlyPayments_def b)
qed

lemmas rent_eval = rentStore_def rentBill_def payment_findFirst_def existingFilter_def
  createPayment_def payment_create_def Let_def numeral_2_eq_2 numeral_3_eq_3

lemma april_dates:
  "newDate 2023 3 1 0 0 0 = 1680307200000" "newDate 2023 3 30 0 0 0 = 1682812800000"
  "newDate 2023 3 31 0 0 0 = 1682899200000" "newDate 2023 4 1 0 0 0 = 1682899200000"
  by (simp_all add: date_defs)

lemma april_first_run:
  "generateMonthlyPayments 2023 4 rentStore =
     (Inr [\<lparr>payment_id = 1, billId = 0, amount = 1500, status = PENDING,
            dueDate = 1682899200000, paidDate = None, paymentNotes = None\<rparr>],
      \<lparr>bills = [rentBill],
       payments = [\<lparr>payment_id = 1, billId = 0, amount = 1500, status = PENDING,
            dueDate = 1682899200000, paidDate = None, paymentNotes = None\<rparr>],
       nextId = 2\<rparr>)"
  by (simp add: generateMonthlyPayments_def rent_eval april_dates)

lemma april_second_run:
  "generateMonthlyPayments 2023 4 aprilStore =
     (Inr [\<lparr>payment_id = 2, billId = 0, amount = 1500, status = PENDING,
            dueDate = 1682899200000, paidDate = None, paymentNotes = None\<rparr>],
      \<lparr>bills = [rentBill],
       payments = [\<lparr>payment_id = 1, billId = 0, amount = 1500, status = PENDING,
            dueDate = 1682899200000, paidDate = None, paymentNotes = None\<rparr>,
          \<lparr>payment_id = 2, billId = 0, amount = 1500, status = PENDING,
            dueDate = 1682899200000, paidDate = None, paymentNotes = None\<rparr>],
       nextId = 3\<rparr>)"
  unfolding aprilStore_def april_first_run
  by (simp add: generateMonthlyPayments_def rent_eval april_dates)

text \<open>
  C1, at the input where the code departs from it. The bill \<open>rentBill\<close> is active and
  due on the 31st; April 2023 has 30 days. The payment that
  \<open>generateMonthlyPayments 2023 4\<close> creates for it is not dated 30 April: its due date
  is the day after 30 April, the first instant of 1 May 2023, which is the exclusive
  upper bound of the duplicate check's window for April.
\<close>

theorem generateMonthlyPayments_day31_april:
  "active rentBill \<and> dueDay rentBill = 31 \<and> daysInMonth 2023 4 = 30
   \<and> fst (generateMonthlyPayments 2023 4 rentStore) = Inr (payments aprilStore)
   \<and> map dueDate (payments aprilStore) = [newDate 2023 3 30 0 0 0 + msPerDay]
   \<and> newDate 2023 3 30 0 0 0 + msPerDay = newDate 2023 4 1 0 0 0"
proof -
  have "daysInMonth 2023 4 = 30"
    by (simp add: daysInMonth_table fullYear_def)
  moreover have "active rentBill \<and> dueDay rentBill = 31"
    by (simp add: rentBill_def)
  ultimately show ?thesis
    by (simp add: aprilStore_def april_first_run april_dates msPerDay_def)
qed

text \<open>
  C2, at the input where the code departs from it. Starting from \<open>rentStore\<close>, the
  first call of \<open>generateMonthlyPayments 2023 4\<close> leaves one payment; the second call
  returns a list of one created payment, not the empty list, and leaves two payments
  of the same bill with the same due date.
\<close>

theorem generateMonthlyPayments_twice_day31_april:
  "length (payments aprilStore) = 1
   \<and> map billId (payments aprilStore) = [bill_id rentBill]
   \<and> map_sum id length (fst (generateMonthlyPayments 2023 4 aprilStore)) = Inr 1
   \<and> length (payments (snd (generateMonthlyPayments 2023 4 aprilStore))) = 2
   \<and> map billId (payments (snd (generateMonthlyPayments 2023 4 aprilStore)))
       = [bill_id rentBill, bill_id rentBill]
   \<and> map dueDate (payments (snd (generateMonthlyPayments 2023 4 aprilStore)))
       = [newDate 2023 4 1 0 0 0, newDate 2023 4 1 0 0 0]"
  unfolding april_second_run
  by (simp add: aprilStore_def april_first_run april_dates rentBill_def)

subsection \<open>Paid dates\<close>

lemma applyUpdate_consistent:
  assumes "statusWithPaidDate upd" "paidDateConsistent p"
  shows "paidDateConsistent (applyUpdate upd p)"
  using assms
  by (auto simp: statusWithPaidDate_def paidDateConsistent_def applyUpdate_def)

lemma createPayment_consistent:
  assumes "\<forall>p \<in> set (payments s). paidDateConsistent p"
  shows "\<forall>p \<in> set (payments (snd (createPayment inp s))). paidDateConsistent p"
  using assms
  by (auto simp: createPayment_def payment_create_def Let_def paidDateConsistent_def)

lemma generateMonthlyPayments_consistent:
  assumes "\<forall>p \<in> set (payments s). paidDateConsistent p"
  shows "\<forall>p \<in> set (payments (snd (generateMonthlyPayments y m s))). paidDateConsistent p"
proof -
  obtain r s' where run: "generateMonthlyPayments y m s = (r, s')"
    by (cases "generateMonthlyPayments y m s")
  from generateMonthlyPayments_spec [OF run] obtain new where
    new: "payments s' = payments s @ new"
      "\<forall>q \<in> set new. \<exists>b \<in> set (bills s). active b \<and> generated y m b q
         \<and> find (existingFilter y m (bill_id b)) (payments s) = None"
    by blast
  have "paidDateConsistent q" if "q \<in> set new" for q
    using new(2) that by (auto simp: generated_def paidDateConsistent_def)
  then show ?thesis using assms by (auto simp: run new(1))
qed

lemma updatePayment_consistent:
  assumes "statusWithPaidDate upd" "\<forall>p \<in> set (payments s). paidDateConsistent p"
  shows "\<forall>p \<in> set (payments (snd (updatePayment i upd s))). paidDateConsistent p"
  using assms applyUpdate_consistent [OF assms(1)]
  by (auto simp: updatePayment_def payment_update_def split: option.splits)

lemma markAsPaid_consistent:
  assumes "\<forall>p \<in> set (payments s). paidDateConsistent p"
  shows "\<forall>p \<in> set (payments (snd (markAsPaid i pd now s))). paidDateConsistent p"
  unfolding markAsPaid_def
  by (rule updatePayment_consistent [OF _ assms]) (simp add: statusWithPaidDate_def)

lemma deletePayment_consistent:
  assumes "\<forall>p \<in> set (payments s). paidDateConsistent p"
  shows "\<forall>p \<in> set (payments (snd (deletePayment i s))). paidDateConsistent p"
  using assms by (auto simp: deletePayment_def payment_delete_def split: option.splits)

lemma updateOverduePayments_consistent:
  assumes "\<forall>p \<in> set (payments s). paidDateConsistent p"
  shows "\<forall>p \<in> set (payments (snd (updateOverduePayments now s))). paidDateConsistent p"
  using assms
  by (auto simp: updateOverduePayments_def payment_updateMany_def paidDateConsistent_def)

text \<open>
  C8 (as amended). In every state reached from a store without payments through
  \<open>createPayment\<close>, \<open>generateMonthlyPayments\<close>, \<open>markAsPaid\<close>, \<open>deletePayment\<close>,
  \<open>updateOverduePayments\<close>, and those calls of \<open>updatePayment\<close> whose input either
  leaves both status and paid date alone or sets the status to paid together with a
  paid date, every payment has a paid date if and only if its status is paid.
\<close>

theorem reachablePaired_paidDate_iff_paid:
  assumes "reachablePaired s"
  shows "\<forall>p \<in> set (payments s). (paidDate p \<noteq> None) = (status p = PAID)"
proof -
  have "\<forall>p \<in> set (payments s). paidDateConsistent p"
    using assms
  proof (induction rule: reachablePaired.induct)
    case (paired_init s)
    then show ?case by simp
  next
    case (paired_create s inp)
    then show ?case by (intro createPayment_consistent)
  next
    case (paired_generate s y m)
    then show ?case by (intro generateMonthlyPayments_consistent)
  next
    case (paired_update s upd i)
    then show ?case by (intro updatePayment_consistent)
  next
    case (paired_markAsPaid s i pd now)
    then show ?case by (intro markAsPaid_consistent)
  next
    case (paired_delete s i)
    then show ?case by (intro deletePayment_consistent)
  next
    case (paired_sweep s now)
    then show ?case by (intro updateOverduePayments_consistent)
  qed
  then show ?thesis by (simp add: paidDateConsistent_def)
qed

lemma januaryStore_eval:
  "januaryStore =
     \<lparr>bills = [rentBill],
      payments = [\<lparr>payment_id = 1, billId = 0, amount = 1500, status = PENDING,
            dueDate = newDate 2024 0 31 0 0 0, paidDate = None, paymentNotes = None\<rparr>],
      nextId = 2\<rparr>"
  by (simp add: januaryStore_def rent_eval)

lemma paidStore_eval:
  "payments paidStore =
     [\<lparr>payment_id = 1, billId = 0, amount = 1500, status = PAID,
       dueDate = newDate 2024 0 31 0 0 0, paidDate = Some (newDate 2024 1 5 0 0 0),
       paymentNotes = None\<rparr>]"
  by (simp add: paidStore_def januaryStore_eval markAsPaid_def updatePayment_def
      payment_update_def applyUpdate_def)

lemma paidWithoutDateStore_eval:
  "payments paidWithoutDateStore =
     [\<lparr>payment_id = 1, billId = 0, amount = 1500, status = PAID,
       dueDate = newDate 2024 0 31 0 0 0, paidDate = None, paymentNotes = None\<rparr>]"
  by (simp add: paidWithoutDateStore_def januaryStore_eval updatePayment_def
      payment_update_def applyUpdate_def)

theorem reachablePaired_paidDate_iff_paid_witness:
  "reachablePaired paidStore
   \<and> map status (payments paidStore) = [PAID]
   \<and> map paidDate (payments paidStore) = [Some (newDate 2024 1 5 0 0 0)]
   \<and> list_all (\<lambda>p. (paidDate p \<noteq> None) = (status p = PAID)) (payments paidStore)"
proof -
  have "reachablePaired rentStore"
    by (rule paired_init) (simp add: rentStore_def)
  then have "reachablePaired januaryStore"
    unfolding januaryStore_def by (rule paired_create)
  then have r: "reachablePaired paidStore"
    unfolding paidStore_def by (rule paired_markAsPaid)
  from reachablePaired_paidDate_iff_paid [OF r]
  have "list_all (\<lambda>p. (paidDate p \<noteq> None) = (status p = PAID)) (payments paidStore)"
    by (simp add: list_all_iff)
  then show ?thesis using r by (simp add: paidStore_eval)
qed

theorem updatePayment_paid_without_date_counterexample:
  "reachable paidWithoutDateStore
   \<and> map status (payments paidWithoutDateStore) = [PAID]
   \<and> map paidDate (payments paidWithoutDateStore) = [None]"
proof -
  have "reachable rentStore"
    by (rule reach_init) (simp add: rentStore_def)
  then have "reachable januaryStore"
    unfolding januaryStore_def by (rule reach_create)
  then have "reachable paidWithoutDateStore"
    unfolding paidWithoutDateStore_def by (rule reach_update)
  then show ?thesis by (simp add: paidWithoutDateStore_eval)
qed

end
